theory Spec2Isabelle
  imports Complex_Main
begin

section \<open>Continuity Index toolkit (CIv2.py)\<close>

text \<open>
  The toolkit is four pure methods of the class \<open>ContinuityIndexToolkit\<close>:
  \<open>calculate_ci\<close>, \<open>interpret_ci_minimal\<close>, \<open>classify_regime\<close> and
  \<open>explain_regime\<close>. None of them reads \<open>self\<close>, so the methods are modelled
  as functions of their remaining arguments.
\<close>

subsection \<open>Python values\<close>

text \<open>
  A Python float is an IEEE 754 binary64 value: a finite number, one of the two
  infinities, or NaN. A finite float is represented by the real number it denotes;
  every arithmetic result is rounded to binary64 (\<open>round_to_double\<close> below), so it
  overflows to an infinity and underflows to zero as the hardware does. The two signed
  zeros are one value; the program never tells them apart (they compare equal, and it
  never divides by a zero).
\<close>

datatype pyfloat = NaN | NegInf | PosInf | Finite real

text \<open>
  An argument of \<open>calculate_ci\<close> is any Python object. What the code asks of it is
  whether it is an instance of \<open>int\<close> or \<open>float\<close> (a \<open>bool\<close> is an \<open>int\<close>:
  \<open>True\<close> is \<open>PyInt 1\<close>); every other object is \<open>PyOther\<close>. An \<open>int\<close> is
  unbounded and its arithmetic is exact.
\<close>

datatype pyval = PyInt int | PyFloat pyfloat | PyOther

datatype py_error = ValueError string | ZeroDivisionError | OverflowError | TypeError

text \<open>The numeric value of an \<open>int\<close> or \<open>float\<close>; \<open>None\<close> is the failed \<open>isinstance\<close> test.\<close>

fun num_of :: "pyval \<Rightarrow> pyfloat option" where
  "num_of (PyInt i) = Some (Finite (real_of_int i))"
| "num_of (PyFloat v) = Some v"
| "num_of PyOther = None"

subsection \<open>Comparison of floats\<close>

text \<open>Every comparison with NaN is false.\<close>

fun pf_lt :: "pyfloat \<Rightarrow> pyfloat \<Rightarrow> bool" where
  "pf_lt NaN _ = False"
| "pf_lt _ NaN = False"
| "pf_lt (Finite a) (Finite b) = (a < b)"
| "pf_lt (Finite a) PosInf = True"
| "pf_lt (Finite a) NegInf = False"
| "pf_lt NegInf (Finite b) = True"
| "pf_lt NegInf PosInf = True"
| "pf_lt NegInf NegInf = False"
| "pf_lt PosInf _ = False"

definition pf_eq :: "pyfloat \<Rightarrow> pyfloat \<Rightarrow> bool" where
  "pf_eq a b = (a \<noteq> NaN \<and> b \<noteq> NaN \<and> a = b)"

definition pf_gt :: "pyfloat \<Rightarrow> pyfloat \<Rightarrow> bool" where
  "pf_gt a b = pf_lt b a"

definition pf_ge :: "pyfloat \<Rightarrow> pyfloat \<Rightarrow> bool" where
  "pf_ge a b = (pf_lt b a \<or> pf_eq a b)"

subsection \<open>Rounding to binary64\<close>

text \<open>
  Round to nearest, ties to even. A binary64 value has 53 significant bits and an
  exponent of at least -1022 (below that the values are subnormal, with the fixed
  spacing \<open>2 powi (-1074)\<close>). \<open>round_at e x\<close> rounds the magnitude \<open>x\<close> to a
  multiple of the spacing \<open>2 powi (e - 52)\<close> of the binade with exponent \<open>e\<close>; a
  result of \<open>2 powi 1024\<close> or more is an infinity.
\<close>

definition round_half_even :: "real \<Rightarrow> int" where
  "round_half_even x =
     (let f = \<lfloor>x\<rfloor> in
      if x - of_int f < 1 / 2 then f
      else if 1 / 2 < x - of_int f then f + 1
      else if even f then f else f + 1)"

definition double_exponent :: "real \<Rightarrow> int" where
  "double_exponent x = max \<lfloor>log 2 x\<rfloor> (- 1022)"

definition round_at :: "int \<Rightarrow> real \<Rightarrow> real" where
  "round_at e x = of_int (round_half_even (x / 2 powi (e - 52))) * 2 powi (e - 52)"

definition round_to_double :: "real \<Rightarrow> pyfloat" where
  "round_to_double x =
     (if x = 0 then Finite 0
      else
        let y = round_at (double_exponent \<bar>x\<bar>) \<bar>x\<bar>
        in if 2 powi 1024 \<le> y then (if 0 < x then PosInf else NegInf)
           else Finite (if 0 < x then y else - y))"

subsection \<open>Arithmetic\<close>

text \<open>
  Float multiplication: \<open>0 * inf\<close> is NaN, NaN is absorbing, the finite product is
  rounded, no exception is raised.
\<close>

fun pf_mul :: "pyfloat \<Rightarrow> pyfloat \<Rightarrow> pyfloat" where
  "pf_mul NaN _ = NaN"
| "pf_mul _ NaN = NaN"
| "pf_mul (Finite a) (Finite b) = round_to_double (a * b)"
| "pf_mul (Finite a) PosInf = (if a = 0 then NaN else if 0 < a then PosInf else NegInf)"
| "pf_mul (Finite a) NegInf = (if a = 0 then NaN else if 0 < a then NegInf else PosInf)"
| "pf_mul PosInf (Finite b) = (if b = 0 then NaN else if 0 < b then PosInf else NegInf)"
| "pf_mul NegInf (Finite b) = (if b = 0 then NaN else if 0 < b then NegInf else PosInf)"
| "pf_mul PosInf PosInf = PosInf"
| "pf_mul PosInf NegInf = NegInf"
| "pf_mul NegInf PosInf = NegInf"
| "pf_mul NegInf NegInf = PosInf"

text \<open>
  Float division: Python raises \<open>ZeroDivisionError\<close> for a zero divisor, whatever the
  dividend; otherwise the IEEE result (\<open>inf / inf\<close> is NaN, the finite quotient is
  rounded).
\<close>

fun pf_div :: "pyfloat \<Rightarrow> pyfloat \<Rightarrow> py_error + pyfloat" where
  "pf_div a (Finite b) =
     (if b = 0 then Inl ZeroDivisionError
      else Inr (case a of
                  NaN \<Rightarrow> NaN
                | Finite x \<Rightarrow> round_to_double (x / b)
                | PosInf \<Rightarrow> (if 0 < b then PosInf else NegInf)
                | NegInf \<Rightarrow> (if 0 < b then NegInf else PosInf)))"
| "pf_div a NaN = Inr NaN"
| "pf_div a PosInf = Inr (case a of Finite x \<Rightarrow> Finite 0 | _ \<Rightarrow> NaN)"
| "pf_div a NegInf = Inr (case a of Finite x \<Rightarrow> Finite 0 | _ \<Rightarrow> NaN)"

text \<open>
  The conversion of an \<open>int\<close> operand to \<open>float\<close> in mixed arithmetic: the nearest
  float, or \<open>OverflowError\<close> ("int too large to convert to float").
\<close>

definition to_float :: "int \<Rightarrow> py_error + pyfloat" where
  "to_float n =
     (case round_to_double (real_of_int n) of
        Finite y \<Rightarrow> Inr (Finite y)
      | _ \<Rightarrow> Inl OverflowError)"

text \<open>
  The operator \<open>*\<close>: exact on two \<open>int\<close>s, otherwise the \<open>int\<close> operand is converted
  and the floats are multiplied. The last equation stands for an operand that is not a
  number; \<open>calculate_ci\<close> never multiplies or divides one, since the loop has
  raised before.
\<close>

fun py_mul :: "pyval \<Rightarrow> pyval \<Rightarrow> py_error + pyval" where
  "py_mul (PyInt a) (PyInt b) = Inr (PyInt (a * b))"
| "py_mul (PyInt a) (PyFloat y) =
     (case to_float a of Inl e \<Rightarrow> Inl e | Inr x \<Rightarrow> Inr (PyFloat (pf_mul x y)))"
| "py_mul (PyFloat x) (PyInt b) =
     (case to_float b of Inl e \<Rightarrow> Inl e | Inr y \<Rightarrow> Inr (PyFloat (pf_mul x y)))"
| "py_mul (PyFloat x) (PyFloat y) = Inr (PyFloat (pf_mul x y))"
| "py_mul _ _ = Inl TypeError"

text \<open>
  The operator \<open>/\<close> always yields a float. On two \<open>int\<close>s it is the correctly rounded
  quotient, with \<open>OverflowError\<close> ("integer division result too large for a float")
  when that is not finite; otherwise the \<open>int\<close> operand is converted and the floats
  are divided.
\<close>

fun py_truediv :: "pyval \<Rightarrow> pyval \<Rightarrow> py_error + pyfloat" where
  "py_truediv (PyInt a) (PyInt b) =
     (if b = 0 then Inl ZeroDivisionError
      else case round_to_double (real_of_int a / real_of_int b) of
             Finite y \<Rightarrow> Inr (Finite y)
           | _ \<Rightarrow> Inl OverflowError)"
| "py_truediv (PyInt a) (PyFloat y) =
     (case to_float a of Inl e \<Rightarrow> Inl e | Inr x \<Rightarrow> pf_div x y)"
| "py_truediv (PyFloat x) (PyInt b) =
     (case to_float b of Inl e \<Rightarrow> Inl e | Inr y \<Rightarrow> pf_div x y)"
| "py_truediv (PyFloat x) (PyFloat y) = pf_div x y"
| "py_truediv _ _ = Inl TypeError"

text \<open>The test \<open>v == 0\<close>: exact for an \<open>int\<close>, false for NaN and for a non-number.\<close>

definition py_eq_zero :: "pyval \<Rightarrow> bool" where
  "py_eq_zero v = (case num_of v of None \<Rightarrow> False | Some x \<Rightarrow> pf_eq x (Finite 0))"

text \<open>
  \<open>math.log10\<close>: a domain error for zero and negative arguments. The value on a
  positive float is taken to be the correctly rounded logarithm; the C library may
  differ from it in the last place, and no property below depends on the digits of
  that value.
\<close>

fun log10 :: "pyfloat \<Rightarrow> py_error + pyfloat" where
  "log10 NaN = Inr NaN"
| "log10 PosInf = Inr PosInf"
| "log10 NegInf = Inl (ValueError ''math domain error'')"
| "log10 (Finite x) =
     (if 0 < x then Inr (round_to_double (log 10 x)) else Inl (ValueError ''math domain error''))"

subsection \<open>calculate_ci\<close>

text \<open>
  The validation loop over the four named arguments, in the order of the list literal:
  the first failing test raises, so the result is the first error, or \<open>None\<close> when
  the loop runs to its end.
\<close>

fun validate :: "(string \<times> pyval) list \<Rightarrow> py_error option" where
  "validate [] = None"
| "validate ((name, x) # rest) =
     (case num_of x of
        None \<Rightarrow> Some (ValueError (name @ '' must be a number.''))
      | Some v \<Rightarrow>
          if pf_lt v (Finite 0) then Some (ValueError (name @ '' must be non-negative.''))
          else validate rest)"

text \<open>The message of the zero-denominator error; lambda and the times sign are UTF-8.\<close>

definition denominator_msg :: string where
  "denominator_msg =
     ''Denominator ('' @ [CHR 0xCE, CHR 0xBB] @ '' '' @ [CHR 0xC3, CHR 0x97] @
     '' d_I) cannot be zero (would cause division by zero).''"

text \<open>
  The body after the loop, lines 57 to 63: the denominator, its test against zero, the
  numerator, the quotient, and the logarithm, each evaluated in the order of the source.
\<close>

definition compute_ci :: "pyval \<Rightarrow> pyval \<Rightarrow> pyval \<Rightarrow> pyval \<Rightarrow> py_error + (pyfloat \<times> pyfloat)" where
  "compute_ci R f_I d_I lambda_env =
     (case py_mul lambda_env d_I of
        Inl e \<Rightarrow> Inl e
      | Inr denominator \<Rightarrow>
          if py_eq_zero denominator then Inl (ValueError denominator_msg)
          else
            case py_mul R f_I of
              Inl e \<Rightarrow> Inl e
            | Inr numerator \<Rightarrow>
                case py_truediv numerator denominator of
                  Inl e \<Rightarrow> Inl e
                | Inr ci \<Rightarrow>
                    if pf_gt ci (Finite 0) then
                      (case log10 ci of Inl e \<Rightarrow> Inl e | Inr log_ci \<Rightarrow> Inr (ci, log_ci))
                    else Inr (ci, NegInf))"

text \<open>
  After the loop every argument is an \<open>int\<close> or a \<open>float\<close>, so the \<open>TypeError\<close> of
  arithmetic on another object is never raised (lemma \<open>calculate_ci_no_TypeError\<close>).
\<close>

definition calculate_ci :: "pyval \<Rightarrow> pyval \<Rightarrow> pyval \<Rightarrow> pyval \<Rightarrow> py_error + (pyfloat \<times> pyfloat)" where
  "calculate_ci R f_I d_I lambda_env =
     (case validate [(''R'', R), (''f_I'', f_I), (''d_I'', d_I), (''lambda_env'', lambda_env)] of
        Some e \<Rightarrow> Inl e
      | None \<Rightarrow> compute_ci R f_I d_I lambda_env)"

subsection \<open>interpret_ci_minimal, classify_regime, explain_regime\<close>

definition msg_effective :: string where
  "msg_effective =
     ''The system is on a path to persist and potentially grow (effective continuity).''"

definition msg_equilibrium :: string where
  "msg_equilibrium =
     ''The system is in a fragile equilibrium; small changes can shift it toward growth or collapse.''"

definition msg_collapse :: string where
  "msg_collapse =
     ''The system is at risk of collapse or extinction in expectation (continuity threshold not met).''"

definition msg_invalid :: string where
  "msg_invalid = ''Invalid CI value.''"

definition interpret_ci_minimal :: "pyfloat \<Rightarrow> string" where
  "interpret_ci_minimal ci =
     (if pf_gt ci (Finite 1) then msg_effective
      else if pf_eq ci (Finite 1) then msg_equilibrium
      else if pf_lt ci (Finite 1) then msg_collapse
      else msg_invalid)"

definition classify_regime :: "pyfloat \<Rightarrow> string" where
  "classify_regime log_ci =
     (if pf_ge log_ci (Finite 4) then ''super_persistent''
      else if pf_ge log_ci (Finite 2) then ''strong''
      else if pf_ge log_ci (Finite 1) then ''fragile''
      else ''collapse_gravity'')"

definition text_super_persistent :: string where
  "text_super_persistent =
     ''System exhibits very strong continuity (super_persistent): '' @
     ''it is structurally robust and highly likely to persist barring extreme, nonlocal shocks.''"

definition text_strong :: string where
  "text_strong =
     ''System has strong continuity: it is generally robust and resilient, '' @
     ''but still worth monitoring for long-term drift or accumulating stress.''"

definition text_fragile :: string where
  "text_fragile =
     ''System is in the fragile continuity band: continuity may hold for some time, '' @
     ''but relatively modest shocks or parameter changes can push it toward collapse or recovery.''"

definition text_collapse_gravity :: string where
  "text_collapse_gravity =
     ''System is in the collapse-gravity regime: without significant intervention to improve reproduction, '' @
     ''fidelity, or reduce hazard/volatility, continuity is unlikely to be sustained.''"

definition explain_regime :: "pyfloat \<Rightarrow> string" where
  "explain_regime log_ci =
     (let regime = classify_regime log_ci in
      if regime = ''super_persistent'' then text_super_persistent
      else if regime = ''strong'' then text_strong
      else if regime = ''fragile'' then text_fragile
      else text_collapse_gravity)"

subsection \<open>Vocabulary of the specification\<close>

text \<open>
  An argument is offending when the loop of \<open>calculate_ci\<close> raises on it: it is not an
  \<open>int\<close> or \<open>float\<close>, or it compares less than zero. \<open>input_error\<close> is the error the
  loop raises for an offending argument of the given name.
\<close>

definition offending :: "pyval \<Rightarrow> bool" where
  "offending x = (case num_of x of None \<Rightarrow> True | Some v \<Rightarrow> pf_lt v (Finite 0))"

definition input_error :: "string \<Rightarrow> pyval \<Rightarrow> py_error" where
  "input_error name x =
     (if num_of x = None then ValueError (name @ '' must be a number.'')
      else ValueError (name @ '' must be non-negative.''))"

text \<open>A number that is neither an infinity nor NaN.\<close>

definition is_finite :: "pyval \<Rightarrow> bool" where
  "is_finite v = (case num_of v of Some (Finite x) \<Rightarrow> True | _ \<Rightarrow> False)"

section \<open>Properties\<close>

subsection \<open>Rounding\<close>

lemma round_half_even_ge_floor: "\<lfloor>x\<rfloor> \<le> round_half_even x"
  by (simp add: round_half_even_def Let_def)

lemma round_half_even_nonneg: "0 \<le> x \<Longrightarrow> 0 \<le> round_half_even x"
proof -
  assume "0 \<le> x"
  then have "0 \<le> \<lfloor>x\<rfloor>" by simp
  with round_half_even_ge_floor[of x] show ?thesis by linarith
qed

lemma round_half_even_of_int [simp]: "round_half_even (of_int n) = n"
  by (simp add: round_half_even_def)


lemma round_at_nonneg: "0 \<le> x \<Longrightarrow> 0 \<le> round_at e x"
proof -
  assume "0 \<le> x"
  then have "0 \<le> x / 2 powi (e - 52)" by simp
  then have "0 \<le> round_half_even (x / 2 powi (e - 52))" by (rule round_half_even_nonneg)
  then show ?thesis by (simp add: round_at_def)
qed

lemma round_to_double_not_NaN [simp]: "round_to_double x \<noteq> NaN"
  by (simp add: round_to_double_def Let_def)

lemma round_to_double_0 [simp]: "round_to_double 0 = Finite 0"
  by (simp add: round_to_double_def)

lemma round_to_double_nonneg_cases:
  assumes "0 \<le> x"
  shows "round_to_double x = PosInf \<or> (\<exists>y. 0 \<le> y \<and> round_to_double x = Finite y)"
proof (cases "x = 0")
  case True
  then show ?thesis by simp
next
  case False
  with assms have pos: "0 < x" by simp
  have "0 \<le> round_at (double_exponent \<bar>x\<bar>) \<bar>x\<bar>" by (rule round_at_nonneg) simp
  with pos False show ?thesis
    by (simp add: round_to_double_def Let_def del: power_int_numeral)
qed

lemma round_to_double_neg_cases:
  assumes "x < 0"
  shows "round_to_double x = NegInf \<or> (\<exists>y. y \<le> 0 \<and> round_to_double x = Finite y)"
proof -
  have "0 \<le> round_at (double_exponent \<bar>x\<bar>) \<bar>x\<bar>" by (rule round_at_nonneg) simp
  with assms show ?thesis
    by (simp add: round_to_double_def Let_def del: power_int_numeral)
qed

lemma floor_log2_bounds:
  assumes "0 < x"
  shows "2 powi \<lfloor>log 2 x\<rfloor> \<le> x" and "x < 2 powi (\<lfloor>log 2 x\<rfloor> + 1)"
proof -
  have "2 powr real_of_int \<lfloor>log 2 x\<rfloor> \<le> x \<and> x < 2 powr (real_of_int \<lfloor>log 2 x\<rfloor> + 1)"
    using floor_log_eq_powr_iff[of x 2 "\<lfloor>log 2 x\<rfloor>"] assms by simp
  moreover have "(2::real) powr (real_of_int \<lfloor>log 2 x\<rfloor> + 1) = 2 powr real_of_int (\<lfloor>log 2 x\<rfloor> + 1)"
    by simp
  ultimately show "2 powi \<lfloor>log 2 x\<rfloor> \<le> x" and "x < 2 powi (\<lfloor>log 2 x\<rfloor> + 1)"
    by (simp_all only: powr_real_of_int' [of 2, simplified])
qed

lemma floor_log2_eqI:
  assumes "2 powi k \<le> x" "x < 2 powi (k + 1)"
  shows "\<lfloor>log 2 x\<rfloor> = k"
proof -
  have pos: "0 < x" using assms(1) by (rule less_le_trans[rotated]) simp
  have "2 powr real_of_int k \<le> x \<and> x < 2 powr (real_of_int k + 1)"
  proof -
    have "(2::real) powr (real_of_int k + 1) = 2 powr real_of_int (k + 1)" by simp
    with assms show ?thesis by (simp only: powr_real_of_int' [of 2, simplified])
  qed
  with floor_log_eq_powr_iff[of x 2 k] pos show ?thesis by simp
qed

lemma two_powi_less_imp: "(2::real) powi a < 2 powi b \<Longrightarrow> a < b"
proof (rule ccontr)
  assume l: "(2::real) powi a < 2 powi b" and "\<not> a < b"
  then have "b \<le> a" by simp
  then have "(2::real) powi b \<le> 2 powi a" by (rule power_int_increasing) simp
  with l show False by simp
qed


lemma two_powi_split: "(2::real) powi k = 2 powi j * 2 powi (k - j)"
  using power_int_add[of "2::real" j "k - j"] by simp

lemma round_at_lower:
  assumes "2 powi k \<le> x"
  shows "2 powi k \<le> round_at k x"
proof -
  define q :: real where "q = 2 powi (k - 52)"
  have q: "0 < q" by (simp add: q_def)
  have kq: "(2::real) powi k = of_int (2 ^ 52) * q"
    using two_powi_split[of k "k - 52"] by (simp add: q_def mult.commute)
  from assms kq have "of_int (2 ^ 52) * q \<le> x" by simp
  with q have "of_int (2 ^ 52) \<le> x / q" by (simp add: pos_le_divide_eq)
  then have "(2::int) ^ 52 \<le> \<lfloor>x / q\<rfloor>" by (simp only: le_floor_iff)
  with round_half_even_ge_floor[of "x / q"]
  have "(2::int) ^ 52 \<le> round_half_even (x / q)" by linarith
  then have "(of_int (2 ^ 52) :: real) \<le> of_int (round_half_even (x / q))"
    by (simp only: of_int_le_iff)
  then have "of_int (2 ^ 52) * q \<le> of_int (round_half_even (x / q)) * q"
    using q by (intro mult_right_mono) simp_all
  with kq show ?thesis by (simp only: round_at_def q_def[symmetric])
qed

lemma round_to_double_overflow:
  assumes "2 powi 1024 \<le> \<bar>x\<bar>"
  shows "round_to_double x = (if 0 < x then PosInf else NegInf)"
proof -
  have pos: "0 < \<bar>x\<bar>" using assms by (rule less_le_trans[rotated]) simp
  then have nz: "x \<noteq> 0" by simp
  define k where "k = \<lfloor>log 2 \<bar>x\<bar>\<rfloor>"
  from floor_log2_bounds[OF pos] have lo: "2 powi k \<le> \<bar>x\<bar>" and hi: "\<bar>x\<bar> < 2 powi (k + 1)"
    by (simp_all only: k_def)
  from assms hi have "(2::real) powi 1024 < 2 powi (k + 1)" by linarith
  then have "1024 < k + 1" by (rule two_powi_less_imp)
  then have k: "1024 \<le> k" by simp
  then have e: "double_exponent \<bar>x\<bar> = k" by (simp add: double_exponent_def k_def)
  have "(2::real) powi 1024 \<le> 2 powi k" using k by (intro power_int_increasing) simp_all
  also have "\<dots> \<le> round_at k \<bar>x\<bar>" using lo by (rule round_at_lower)
  finally have "2 powi 1024 \<le> round_at k \<bar>x\<bar>" .
  with nz e show ?thesis
    by (simp add: round_to_double_def Let_def del: power_int_numeral)
qed


lemma round_to_double_powi:
  assumes "- 1022 \<le> k" "k \<le> 1023"
  shows "round_to_double (2 powi k) = Finite (2 powi k)"
proof -
  have pos: "(0::real) < 2 powi k" by simp
  then have ab: "\<bar>(2::real) powi k\<bar> = 2 powi k" by simp
  have "(2::real) powi k < 2 powi (k + 1)" by (intro power_int_strict_increasing) simp_all
  then have fl: "\<lfloor>log 2 (2 powi k)\<rfloor> = k" by (intro floor_log2_eqI) simp_all
  with assms have e: "double_exponent (2 powi k) = k" by (simp add: double_exponent_def)
  define q :: real where "q = 2 powi (k - 52)"
  have q: "0 < q" by (simp add: q_def)
  have kq: "(2::real) powi k = of_int (2 ^ 52) * q"
    using two_powi_split[of k "k - 52"] by (simp add: q_def mult.commute)
  then have "2 powi k / q = of_int (2 ^ 52)" using q by simp
  then have "round_half_even (2 powi k / q) = 2 ^ 52"
    by (simp only: round_half_even_of_int)
  then have r: "round_at k (2 powi k) = 2 powi k"
    using kq by (simp only: round_at_def q_def[symmetric])
  have "(2::real) powi k < 2 powi 1024" using assms by (intro power_int_strict_increasing) simp_all
  then have small: "\<not> (2::real) powi 1024 \<le> 2 powi k" by (simp only: not_le)
  show ?thesis
    unfolding round_to_double_def Let_def ab e r
    using small pos by (simp del: power_int_numeral)
qed

lemma round_to_double_1 [simp]: "round_to_double 1 = Finite 1"
  using round_to_double_powi[of 0] by simp

lemma round_to_double_2 [simp]: "round_to_double 2 = Finite 2"
  using round_to_double_powi[of 1] by simp

subsection \<open>The validation loop\<close>

lemma validate_Cons:
  "validate ((name, x) # rest) = (if offending x then Some (input_error name x) else validate rest)"
  by (simp add: offending_def input_error_def split: option.splits)

lemma validate_None_iff: "validate args = None \<longleftrightarrow> (\<forall>(n, x) \<in> set args. \<not> offending x)"
  by (induction args) (auto simp: validate_Cons simp del: validate.simps(2) split: if_splits)

lemma validate_first:
  "\<forall>(n, x) \<in> set pre. \<not> offending x \<Longrightarrow> offending y \<Longrightarrow>
   validate (pre @ (m, y) # rest) = Some (input_error m y)"
  by (induction pre) (auto simp: validate_Cons simp del: validate.simps(2) split: if_splits)

lemma validate_some:
  "\<exists>(n, x) \<in> set args. offending x \<Longrightarrow>
   \<exists>(n, x) \<in> set args. offending x \<and> validate args = Some (input_error n x)"
proof (induction args)
  case Nil
  then show ?case by simp
next
  case (Cons a args)
  obtain n x where a: "a = (n, x)" by (cases a)
  show ?case
  proof (cases "offending x")
    case True
    then show ?thesis by (simp add: a validate_Cons del: validate.simps(2))
  next
    case False
    with Cons.prems a have "\<exists>(n, x) \<in> set args. offending x" by auto
    from Cons.IH[OF this] False show ?thesis
      by (auto simp: a validate_Cons simp del: validate.simps(2) split: if_splits)
  qed
qed

lemma not_offending_num: "\<not> offending x \<longleftrightarrow> (\<exists>v. num_of x = Some v \<and> \<not> pf_lt v (Finite 0))"
  by (auto simp: offending_def split: option.splits)

lemma calculate_ci_valid:
  assumes "\<not> offending R" "\<not> offending f_I" "\<not> offending d_I" "\<not> offending lambda_env"
  shows "calculate_ci R f_I d_I lambda_env = compute_ci R f_I d_I lambda_env"
  using assms by (simp add: calculate_ci_def validate_Cons del: validate.simps(2))

lemma calculate_ci_invalid:
  assumes "offending R \<or> offending f_I \<or> offending d_I \<or> offending lambda_env"
  shows "\<exists>e. validate [(''R'', R), (''f_I'', f_I), (''d_I'', d_I), (''lambda_env'', lambda_env)] = Some e
    \<and> calculate_ci R f_I d_I lambda_env = Inl e"
  using assms unfolding calculate_ci_def
  by (auto simp: validate_Cons simp del: validate.simps(2) split: if_splits)

lemma pf_ge_not_lt: "pf_ge v (Finite 0) \<Longrightarrow> \<not> pf_lt v (Finite 0)"
  by (cases v) (auto simp: pf_ge_def pf_eq_def)

subsection \<open>Arithmetic on validated numbers\<close>

lemma not_offending_cases:
  assumes "\<not> offending v"
  obtains (int) n where "v = PyInt n" "0 \<le> n"
    | (nan) "v = PyFloat NaN"
    | (inf) "v = PyFloat PosInf"
    | (fin) x where "v = PyFloat (Finite x)" "0 \<le> x"
proof (cases v)
  case (PyInt n)
  with assms int show ?thesis by (simp add: offending_def)
next
  case (PyFloat y)
  with assms nan inf fin show ?thesis by (cases y) (simp_all add: offending_def)
next
  case PyOther
  with assms show ?thesis by (simp add: offending_def)
qed

lemma not_offending_simps [simp]:
  "\<not> offending (PyFloat NaN)" "\<not> offending (PyFloat PosInf)"
  "offending (PyFloat NegInf)" "offending PyOther"
  "offending (PyFloat (Finite x)) = (x < 0)" "offending (PyInt n) = (n < 0)"
  by (simp_all add: offending_def)

lemma pf_mul_not_neg:
  "\<not> pf_lt a (Finite 0) \<Longrightarrow> \<not> pf_lt b (Finite 0) \<Longrightarrow> \<not> pf_lt (pf_mul a b) (Finite 0)"
proof (cases a; cases b)
  fix x y assume h: "\<not> pf_lt a (Finite 0)" "\<not> pf_lt b (Finite 0)" "a = Finite x" "b = Finite y"
  then have "0 \<le> x * y" by simp
  from round_to_double_nonneg_cases[OF this] h show "\<not> pf_lt (pf_mul a b) (Finite 0)" by auto
qed auto

lemma pf_div_not_neg:
  assumes "\<not> pf_lt a (Finite 0)" "\<not> pf_lt b (Finite 0)" "pf_div a b = Inr c"
  shows "\<not> pf_lt c (Finite 0)"
proof (cases a; cases b)
  fix x y assume h: "a = Finite x" "b = Finite y"
  with assms have xy: "0 \<le> x" "0 < y" and c: "c = round_to_double (x / y)"
    by (auto split: if_splits)
  then have "0 \<le> x / y" by simp
  from round_to_double_nonneg_cases[OF this] c show ?thesis by auto
qed (use assms in \<open>auto split: if_splits\<close>)

lemma round_to_double_pos:
  assumes "2 powi (- 1022) \<le> x"
  shows "round_to_double x = PosInf \<or> (\<exists>y. 0 < y \<and> round_to_double x = Finite y)"
proof -
  have pos: "0 < x" using assms by (rule less_le_trans[rotated]) simp
  define k where "k = \<lfloor>log 2 x\<rfloor>"
  from floor_log2_bounds[OF pos] have lo: "2 powi k \<le> x" and hi: "x < 2 powi (k + 1)"
    by (simp_all only: k_def)
  from assms hi have "(2::real) powi (- 1022) < 2 powi (k + 1)" by linarith
  then have "- 1022 < k + 1" by (rule two_powi_less_imp)
  then have e: "double_exponent x = k" by (simp add: double_exponent_def k_def)
  have "(0::real) < 2 powi k" by simp
  also have "\<dots> \<le> round_at k x" using lo by (rule round_at_lower)
  finally have "0 < round_at k x" .
  with pos e show ?thesis
    by (simp add: round_to_double_def Let_def del: power_int_numeral)
qed

lemma to_float_cases:
  "to_float n = Inl OverflowError \<or>
   (\<exists>y. to_float n = Inr (Finite y) \<and> (0 \<le> n \<longrightarrow> 0 \<le> y) \<and> (n = 0 \<longrightarrow> y = 0) \<and>
        (0 < n \<longrightarrow> 0 < y))"
proof (cases "0 < n")
  case True
  then have "1 \<le> real_of_int n" by simp
  moreover have "(2::real) powi (- 1022) \<le> 2 powi 0" by (intro power_int_increasing) simp_all
  ultimately have "2 powi (- 1022) \<le> real_of_int n" by simp
  from round_to_double_pos[OF this] True show ?thesis
    by (auto simp: to_float_def)
next
  case False
  show ?thesis
  proof (cases "n = 0")
    case True
    then show ?thesis by (simp add: to_float_def)
  next
    case False
    with \<open>\<not> 0 < n\<close> have "real_of_int n < 0" by simp
    from round_to_double_neg_cases[OF this] \<open>\<not> 0 < n\<close> False show ?thesis
      by (auto simp: to_float_def)
  qed
qed

lemma py_mul_float_float: "py_mul (PyFloat x) (PyFloat y) = Inr (PyFloat (pf_mul x y))"
  by simp

lemma not_offending_PyFloat: "\<not> offending (PyFloat x) \<longleftrightarrow> \<not> pf_lt x (Finite 0)"
  by (simp add: offending_def)

lemma py_mul_cases:
  assumes "\<not> offending a" "\<not> offending b"
  shows "py_mul a b = Inl OverflowError \<or> (\<exists>v. py_mul a b = Inr v \<and> \<not> offending v)"
proof (cases a)
  case a: (PyInt m)
  show ?thesis
  proof (cases b)
    case b: (PyInt n)
    from a b assms have "0 \<le> m" "0 \<le> n" by simp_all
    then have "0 \<le> m * n" by (rule mult_nonneg_nonneg)
    with a b show ?thesis by simp
  next
    case b: (PyFloat y)
    from assms a b have m: "0 \<le> m" and y: "\<not> pf_lt y (Finite 0)" by (simp_all add: offending_def)
    from to_float_cases[of m] show ?thesis
    proof
      assume "to_float m = Inl OverflowError"
      with a b show ?thesis by simp
    next
      assume "\<exists>x. to_float m = Inr (Finite x) \<and> (0 \<le> m \<longrightarrow> 0 \<le> x) \<and> (m = 0 \<longrightarrow> x = 0) \<and>
        (0 < m \<longrightarrow> 0 < x)"
      then obtain x where x: "to_float m = Inr (Finite x)" "0 \<le> x" using m by blast
      then have "\<not> pf_lt (Finite x) (Finite 0)" by simp
      from pf_mul_not_neg[OF this y] x a b show ?thesis
        by (simp add: not_offending_PyFloat)
    qed
  next
    case PyOther
    with assms show ?thesis by simp
  qed
next
  case a: (PyFloat x)
  from assms a have x: "\<not> pf_lt x (Finite 0)" by (simp add: offending_def)
  show ?thesis
  proof (cases b)
    case b: (PyInt n)
    from assms b have n: "0 \<le> n" by simp
    from to_float_cases[of n] show ?thesis
    proof
      assume "to_float n = Inl OverflowError"
      with a b show ?thesis by simp
    next
      assume "\<exists>y. to_float n = Inr (Finite y) \<and> (0 \<le> n \<longrightarrow> 0 \<le> y) \<and> (n = 0 \<longrightarrow> y = 0) \<and>
        (0 < n \<longrightarrow> 0 < y)"
      then obtain y where y: "to_float n = Inr (Finite y)" "0 \<le> y" using n by blast
      then have "\<not> pf_lt (Finite y) (Finite 0)" by simp
      from pf_mul_not_neg[OF x this] y a b show ?thesis
        by (simp add: not_offending_PyFloat)
    qed
  next
    case b: (PyFloat y)
    from assms b have y: "\<not> pf_lt y (Finite 0)" by (simp add: offending_def)
    from pf_mul_not_neg[OF x y] a b show ?thesis by (simp add: not_offending_PyFloat)
  next
    case PyOther
    with assms show ?thesis by simp
  qed
next
  case PyOther
  with assms show ?thesis by simp
qed


lemma pf_div_ok: "\<not> pf_eq b (Finite 0) \<Longrightarrow> \<exists>c. pf_div a b = Inr c"
  by (cases b) (auto simp: pf_eq_def)

lemma py_eq_zero_simps [simp]:
  "py_eq_zero (PyInt n) = (n = 0)" "py_eq_zero (PyFloat x) = pf_eq x (Finite 0)"
  "py_eq_zero PyOther = False"
  by (simp_all add: py_eq_zero_def pf_eq_def)

lemma py_truediv_cases:
  assumes "\<not> offending a" "\<not> offending b" "\<not> py_eq_zero b"
  shows "py_truediv a b = Inl OverflowError \<or> (\<exists>c. py_truediv a b = Inr c \<and> \<not> pf_lt c (Finite 0))"
proof (cases b)
  case b: (PyInt n)
  from assms b have n: "0 < n" by simp
  show ?thesis
  proof (cases a)
    case a: (PyInt m)
    from assms a have "0 \<le> m" by simp
    with n have "0 \<le> real_of_int m / real_of_int n" by simp
    from round_to_double_nonneg_cases[OF this] a b n show ?thesis by auto
  next
    case a: (PyFloat x)
    from assms a have x: "\<not> pf_lt x (Finite 0)" by (simp add: offending_def)
    from to_float_cases[of n] show ?thesis
    proof
      assume "to_float n = Inl OverflowError"
      with a b show ?thesis by simp
    next
      assume "\<exists>y. to_float n = Inr (Finite y) \<and> (0 \<le> n \<longrightarrow> 0 \<le> y) \<and> (n = 0 \<longrightarrow> y = 0) \<and>
        (0 < n \<longrightarrow> 0 < y)"
      then obtain y where y: "to_float n = Inr (Finite y)" "0 < y" using n by blast
      then have nz: "\<not> pf_eq (Finite y) (Finite 0)" and nn: "\<not> pf_lt (Finite y) (Finite 0)"
        by (simp_all add: pf_eq_def)
      from pf_div_ok[OF nz, of x] obtain c where c: "pf_div x (Finite y) = Inr c" by blast
      from pf_div_not_neg[OF x nn c] c y a b show ?thesis by simp
    qed
  next
    case PyOther
    with assms show ?thesis by simp
  qed
next
  case b: (PyFloat y)
  from assms b have nz: "\<not> pf_eq y (Finite 0)" and nn: "\<not> pf_lt y (Finite 0)"
    by (simp_all add: offending_def)
  show ?thesis
  proof (cases a)
    case a: (PyInt m)
    from assms a have m: "0 \<le> m" by simp
    from to_float_cases[of m] show ?thesis
    proof
      assume "to_float m = Inl OverflowError"
      with a b show ?thesis by simp
    next
      assume "\<exists>x. to_float m = Inr (Finite x) \<and> (0 \<le> m \<longrightarrow> 0 \<le> x) \<and> (m = 0 \<longrightarrow> x = 0) \<and>
        (0 < m \<longrightarrow> 0 < x)"
      then obtain x where x: "to_float m = Inr (Finite x)" "0 \<le> x" using m by blast
      then have xn: "\<not> pf_lt (Finite x) (Finite 0)" by simp
      from pf_div_ok[OF nz, of "Finite x"] obtain c where c: "pf_div (Finite x) y = Inr c" by blast
      from pf_div_not_neg[OF xn nn c] c x a b show ?thesis by simp
    qed
  next
    case a: (PyFloat x)
    from assms a have xn: "\<not> pf_lt x (Finite 0)" by (simp add: offending_def)
    from pf_div_ok[OF nz, of x] obtain c where c: "pf_div x y = Inr c" by blast
    from pf_div_not_neg[OF xn nn c] c a b show ?thesis by simp
  next
    case PyOther
    with assms show ?thesis by simp
  qed
next
  case PyOther
  with assms show ?thesis by simp
qed

lemma log10_ok: "pf_gt c (Finite 0) \<Longrightarrow> \<exists>y. log10 c = Inr y"
  by (cases c) (auto simp: pf_gt_def)

text \<open>
  The outcomes of the body on validated arguments: an \<open>OverflowError\<close> of one of the
  three operations, the zero-denominator error, or a pair.
\<close>

lemma compute_ci_cases:
  assumes "\<not> offending R" "\<not> offending f_I" "\<not> offending d_I" "\<not> offending lambda_env"
  obtains
    (den_overflow) "py_mul lambda_env d_I = Inl OverflowError"
      "compute_ci R f_I d_I lambda_env = Inl OverflowError"
  | (den_zero) den where "py_mul lambda_env d_I = Inr den" "py_eq_zero den"
      "compute_ci R f_I d_I lambda_env = Inl (ValueError denominator_msg)"
  | (num_overflow) den where "py_mul lambda_env d_I = Inr den" "\<not> py_eq_zero den"
      "py_mul R f_I = Inl OverflowError"
      "compute_ci R f_I d_I lambda_env = Inl OverflowError"
  | (div_overflow) den num where "py_mul lambda_env d_I = Inr den" "\<not> py_eq_zero den"
      "py_mul R f_I = Inr num" "py_truediv num den = Inl OverflowError"
      "compute_ci R f_I d_I lambda_env = Inl OverflowError"
  | (pair) den num ci log_ci where "py_mul lambda_env d_I = Inr den" "\<not> py_eq_zero den"
      "\<not> offending den" "py_mul R f_I = Inr num" "\<not> offending num"
      "py_truediv num den = Inr ci" "\<not> pf_lt ci (Finite 0)"
      "if pf_gt ci (Finite 0) then log10 ci = Inr log_ci else log_ci = NegInf"
      "compute_ci R f_I d_I lambda_env = Inr (ci, log_ci)"
proof -
  from py_mul_cases[OF assms(4,3)] show ?thesis
  proof
    assume "py_mul lambda_env d_I = Inl OverflowError"
    then show ?thesis by (intro den_overflow) (simp_all add: compute_ci_def)
  next
    assume "\<exists>v. py_mul lambda_env d_I = Inr v \<and> \<not> offending v"
    then obtain den where den: "py_mul lambda_env d_I = Inr den" "\<not> offending den" by blast
    show ?thesis
    proof (cases "py_eq_zero den")
      case True
      with den show ?thesis by (intro den_zero[of den]) (simp_all add: compute_ci_def)
    next
      case nz: False
      from py_mul_cases[OF assms(1,2)] show ?thesis
      proof
        assume "py_mul R f_I = Inl OverflowError"
        with den nz show ?thesis by (intro num_overflow[of den]) (simp_all add: compute_ci_def)
      next
        assume "\<exists>v. py_mul R f_I = Inr v \<and> \<not> offending v"
        then obtain num where num: "py_mul R f_I = Inr num" "\<not> offending num" by blast
        from py_truediv_cases[OF num(2) den(2) nz] show ?thesis
        proof
          assume "py_truediv num den = Inl OverflowError"
          with den nz num show ?thesis
            by (intro div_overflow[of den num]) (simp_all add: compute_ci_def)
        next
          assume "\<exists>c. py_truediv num den = Inr c \<and> \<not> pf_lt c (Finite 0)"
          then obtain ci where ci: "py_truediv num den = Inr ci" "\<not> pf_lt ci (Finite 0)" by blast
          show ?thesis
          proof (cases "pf_gt ci (Finite 0)")
            case True
            from log10_ok[OF this] obtain y where y: "log10 ci = Inr y" by blast
            with True den nz num ci show ?thesis
              by (intro pair[of den num ci y]) (simp_all add: compute_ci_def)
          next
            case False
            with den nz num ci show ?thesis
              by (intro pair[of den num ci NegInf]) (simp_all add: compute_ci_def)
          qed
        qed
      qed
    qed
  qed
qed


lemma to_float_0 [simp]: "to_float 0 = Inr (Finite 0)"
  by (simp add: to_float_def)

lemma to_float_1 [simp]: "to_float 1 = Inr (Finite 1)"
  by (simp add: to_float_def)

lemma is_finite_simps [simp]:
  "is_finite (PyInt n)" "is_finite (PyFloat (Finite x))" "\<not> is_finite (PyFloat NaN)"
  "\<not> is_finite (PyFloat PosInf)" "\<not> is_finite (PyFloat NegInf)" "\<not> is_finite PyOther"
  by (simp_all add: is_finite_def)

lemma is_finite_cases:
  assumes "is_finite v"
  obtains (int) n where "v = PyInt n" | (fin) x where "v = PyFloat (Finite x)"
proof (cases v)
  case (PyInt n)
  with int show ?thesis .
next
  case (PyFloat y)
  with assms fin show ?thesis by (cases y) simp_all
next
  case PyOther
  with assms show ?thesis by simp
qed

lemma py_eq_zero_cases:
  assumes "py_eq_zero v"
  obtains (int) "v = PyInt 0" | (fin) "v = PyFloat (Finite 0)"
proof (cases v)
  case (PyInt n)
  with assms int show ?thesis by simp
next
  case (PyFloat y)
  with assms fin show ?thesis by (cases y) (simp_all add: pf_eq_def)
next
  case PyOther
  with assms show ?thesis by simp
qed

lemma to_float_Inr: "to_float n = Inr x \<Longrightarrow> \<exists>y. x = Finite y"
  by (cases "round_to_double (real_of_int n)") (auto simp: to_float_def)

lemma py_mul_zero_left:
  assumes "py_mul a b = Inr v" "py_eq_zero a" "is_finite b"
  shows "py_eq_zero v"
  using assms(2)
proof (cases rule: py_eq_zero_cases)
  case int
  from assms(3) show ?thesis
  proof (cases rule: is_finite_cases)
    case (int n)
    with \<open>a = PyInt 0\<close> assms(1) show ?thesis by (auto simp: pf_eq_def)
  next
    case (fin x)
    with \<open>a = PyInt 0\<close> assms(1) show ?thesis by (auto simp: pf_eq_def)
  qed
next
  case fin
  from assms(3) show ?thesis
  proof (cases rule: is_finite_cases)
    case (int n)
    with \<open>a = PyFloat (Finite 0)\<close> assms(1) obtain x where "to_float n = Inr x" "v = PyFloat (pf_mul (Finite 0) x)"
      by (auto split: sum.splits)
    with to_float_Inr[of n x] show ?thesis by (auto simp: pf_eq_def)
  next
    case (fin x)
    with \<open>a = PyFloat (Finite 0)\<close> assms(1) show ?thesis by (auto simp: pf_eq_def)
  qed
qed

lemma py_mul_zero_right:
  assumes "py_mul a b = Inr v" "py_eq_zero b" "is_finite a"
  shows "py_eq_zero v"
  using assms(2)
proof (cases rule: py_eq_zero_cases)
  case int
  from assms(3) show ?thesis
  proof (cases rule: is_finite_cases)
    case (int n)
    with \<open>b = PyInt 0\<close> assms(1) show ?thesis by (auto simp: pf_eq_def)
  next
    case (fin x)
    with \<open>b = PyInt 0\<close> assms(1) show ?thesis by (auto simp: pf_eq_def)
  qed
next
  case fin
  from assms(3) show ?thesis
  proof (cases rule: is_finite_cases)
    case (int n)
    with \<open>b = PyFloat (Finite 0)\<close> assms(1) obtain x where "to_float n = Inr x" "v = PyFloat (pf_mul x (Finite 0))"
      by (auto split: sum.splits)
    with to_float_Inr[of n x] show ?thesis by (auto simp: pf_eq_def)
  next
    case (fin x)
    with \<open>b = PyFloat (Finite 0)\<close> assms(1) show ?thesis by (auto simp: pf_eq_def)
  qed
qed

lemma pf_div_no_overflow: "pf_div x y \<noteq> Inl OverflowError"
  by (cases y) simp_all

subsection \<open>The formula\<close>

text \<open>
  C1, as stated: for every call whose four arguments are numbers that compare
  \<open>>= 0\<close> and whose product \<open>lambda_env * d_I\<close> is nonzero, a pair
  \<open>(CI, log_CI)\<close> with \<open>CI = (R * f_I) / (lambda_env * d_I)\<close> is returned. This does
  not hold for large \<open>int\<close> arguments: \<open>calculate_ci(10**308, 10, 1, 1)\<close> passes
  validation, the denominator is 1, and the true division of \<open>10**309\<close> by 1 raises
  \<open>OverflowError\<close>, so no pair is returned.
\<close>

theorem calculate_ci_overflow_counterexample:
  "pf_ge (Finite (real_of_int (10 ^ 308))) (Finite 0) \<and> pf_ge (Finite (real_of_int 10)) (Finite 0) \<and>
   pf_ge (Finite (real_of_int 1)) (Finite 0) \<and>
   py_mul (PyInt 1) (PyInt 1) = Inr (PyInt 1) \<and> \<not> py_eq_zero (PyInt 1) \<and>
   calculate_ci (PyInt (10 ^ 308)) (PyInt 10) (PyInt 1) (PyInt 1) = Inl OverflowError"
proof -
  have "(2::real) powi 1024 \<le> \<bar>real_of_int (10 ^ 308 * 10) / real_of_int 1\<bar>"
    by simp
  from round_to_double_overflow[OF this]
  have "round_to_double (real_of_int (10 ^ 308 * 10) / real_of_int 1) = PosInf"
    by simp
  then have "py_truediv (PyInt (10 ^ 308 * 10)) (PyInt 1) = Inl OverflowError"
    by (simp only: py_truediv.simps) simp
  then have "calculate_ci (PyInt (10 ^ 308)) (PyInt 10) (PyInt 1) (PyInt 1) = Inl OverflowError"
    by (simp add: calculate_ci_def compute_ci_def del: py_truediv.simps)
  then show ?thesis by (simp add: pf_ge_def)
qed


text \<open>
  C1, amended. For every call whose four arguments are numbers that compare \<open>>= 0\<close>
  and whose product \<open>lambda_env * d_I\<close> is computed and does not compare equal to
  zero, \<open>calculate_ci\<close> either raises \<open>OverflowError\<close> (from the product \<open>R * f_I\<close>
  or from the division) or returns a pair \<open>(CI, log_CI)\<close> in which \<open>CI\<close> is the
  floating-point value of \<open>(R * f_I) / (lambda_env * d_I)\<close>, and \<open>log_CI\<close> is
  \<open>log10(CI)\<close> when \<open>CI > 0\<close>. When all four arguments are floats there is no
  \<open>OverflowError\<close>, so a pair is returned.
\<close>

theorem calculate_ci_formula:
  assumes "num_of R = Some r" "num_of f_I = Some f" "num_of d_I = Some d" "num_of lambda_env = Some l"
    and "pf_ge r (Finite 0)" "pf_ge f (Finite 0)" "pf_ge d (Finite 0)" "pf_ge l (Finite 0)"
    and "py_mul lambda_env d_I = Inr den" "\<not> py_eq_zero den"
  shows "((calculate_ci R f_I d_I lambda_env = Inl OverflowError \<and>
            (py_mul R f_I = Inl OverflowError \<or>
             (\<exists>num. py_mul R f_I = Inr num \<and> py_truediv num den = Inl OverflowError))) \<or>
          (\<exists>num ci log_ci. py_mul R f_I = Inr num \<and> py_truediv num den = Inr ci \<and>
             calculate_ci R f_I d_I lambda_env = Inr (ci, log_ci) \<and>
             (pf_gt ci (Finite 0) \<longrightarrow> log10 ci = Inr log_ci))) \<and>
         ((\<exists>a b c e. R = PyFloat a \<and> f_I = PyFloat b \<and> d_I = PyFloat c \<and> lambda_env = PyFloat e) \<longrightarrow>
            calculate_ci R f_I d_I lambda_env \<noteq> Inl OverflowError)"
proof -
  have v: "\<not> offending R" "\<not> offending f_I" "\<not> offending d_I" "\<not> offending lambda_env"
    using assms(1-8) by (simp_all add: offending_def pf_ge_not_lt)
  have eq: "calculate_ci R f_I d_I lambda_env = compute_ci R f_I d_I lambda_env"
    using v by (rule calculate_ci_valid)
  have main: "(compute_ci R f_I d_I lambda_env = Inl OverflowError \<and>
            (py_mul R f_I = Inl OverflowError \<or>
             (\<exists>num. py_mul R f_I = Inr num \<and> py_truediv num den = Inl OverflowError))) \<or>
          (\<exists>num ci log_ci. py_mul R f_I = Inr num \<and> py_truediv num den = Inr ci \<and>
             compute_ci R f_I d_I lambda_env = Inr (ci, log_ci) \<and>
             (pf_gt ci (Finite 0) \<longrightarrow> log10 ci = Inr log_ci))"
    using v
  proof (cases rule: compute_ci_cases)
    case den_overflow
    with assms(9) show ?thesis by simp
  next
    case (den_zero den')
    with assms(9,10) show ?thesis by simp
  next
    case (num_overflow den')
    then show ?thesis by simp
  next
    case (div_overflow den' num)
    with assms(9) have "den' = den" by simp
    with div_overflow show ?thesis by simp
  next
    case (pair den' num ci log_ci)
    with assms(9) have "den' = den" by simp
    with pair(4,6,8,9) have "py_mul R f_I = Inr num \<and> py_truediv num den = Inr ci \<and>
             compute_ci R f_I d_I lambda_env = Inr (ci, log_ci) \<and>
             (pf_gt ci (Finite 0) \<longrightarrow> log10 ci = Inr log_ci)"
      by (simp split: if_splits)
    then show ?thesis by blast
  qed
  have fl: "compute_ci R f_I d_I lambda_env \<noteq> Inl OverflowError"
    if "\<exists>a b c e. R = PyFloat a \<and> f_I = PyFloat b \<and> d_I = PyFloat c \<and> lambda_env = PyFloat e"
  proof -
    from that obtain a b c e where
      ty: "R = PyFloat a" "f_I = PyFloat b" "d_I = PyFloat c" "lambda_env = PyFloat e" by blast
    with assms(9) have den: "den = PyFloat (pf_mul e c)" by simp
    have num: "py_mul R f_I = Inr (PyFloat (pf_mul a b))" using ty by simp
    from main show ?thesis
    proof
      assume "compute_ci R f_I d_I lambda_env = Inl OverflowError \<and>
            (py_mul R f_I = Inl OverflowError \<or>
             (\<exists>num. py_mul R f_I = Inr num \<and> py_truediv num den = Inl OverflowError))"
      with num den have "pf_div (pf_mul a b) (pf_mul e c) = Inl OverflowError" by auto
      with pf_div_no_overflow show ?thesis by blast
    next
      assume "\<exists>num ci log_ci. py_mul R f_I = Inr num \<and> py_truediv num den = Inr ci \<and>
             compute_ci R f_I d_I lambda_env = Inr (ci, log_ci) \<and>
             (pf_gt ci (Finite 0) \<longrightarrow> log10 ci = Inr log_ci)"
      then show ?thesis by auto
    qed
  qed
  from main fl show ?thesis unfolding eq by blast
qed

theorem calculate_ci_formula_witness:
  "py_mul (PyFloat (Finite 1)) (PyFloat (Finite 1)) = Inr (PyFloat (Finite 1)) \<and>
   \<not> py_eq_zero (PyFloat (Finite 1)) \<and>
   calculate_ci (PyFloat (Finite 2)) (PyFloat (Finite 1)) (PyFloat (Finite 1)) (PyFloat (Finite 1))
     = Inr (Finite 2, round_to_double (log 10 2)) \<and>
   calculate_ci (PyFloat (Finite 2)) (PyFloat (Finite 1)) (PyFloat (Finite 1)) (PyFloat (Finite 1))
     \<noteq> Inl OverflowError"
proof -
  have m: "py_mul (PyFloat (Finite 1)) (PyFloat (Finite 1)) = Inr (PyFloat (Finite 1))"
    and z: "\<not> py_eq_zero (PyFloat (Finite 1))"
    by (simp_all add: pf_eq_def)
  have g: "pf_ge (Finite 2) (Finite 0)" "pf_ge (Finite 1) (Finite 0)"
    by (simp_all add: pf_ge_def)
  have n: "num_of (PyFloat (Finite 2)) = Some (Finite 2)" "num_of (PyFloat (Finite 1)) = Some (Finite 1)"
    by simp_all
  have c: "calculate_ci (PyFloat (Finite 2)) (PyFloat (Finite 1)) (PyFloat (Finite 1))
      (PyFloat (Finite 1)) = Inr (Finite 2, round_to_double (log 10 2))"
    by (simp add: calculate_ci_def compute_ci_def pf_eq_def pf_gt_def)
  from calculate_ci_formula[OF n(1) n(2) n(2) n(2) g(1) g(2) g(2) g(2) m z] m z c
  show ?thesis by simp
qed

subsection \<open>Errors of calculate_ci\<close>

lemma calculate_ci_no_TypeError: "calculate_ci R f_I d_I lambda_env \<noteq> Inl TypeError"
proof (cases "offending R \<or> offending f_I \<or> offending d_I \<or> offending lambda_env")
  case True
  from calculate_ci_invalid[OF this] show ?thesis
    by (auto simp: validate_Cons input_error_def simp del: validate.simps(2) split: if_splits)
next
  case False
  then have v: "\<not> offending R" "\<not> offending f_I" "\<not> offending d_I" "\<not> offending lambda_env"
    by simp_all
  have "compute_ci R f_I d_I lambda_env \<noteq> Inl TypeError"
    by (cases rule: compute_ci_cases[OF v]) simp_all
  with calculate_ci_valid[OF v] show ?thesis by simp
qed

lemma input_error_not_denominator:
  "n \<in> {''R'', ''f_I'', ''d_I'', ''lambda_env''} \<Longrightarrow> input_error n x \<noteq> ValueError denominator_msg"
  by (auto simp: input_error_def denominator_msg_def)

lemma calculate_ci_invalid_error:
  assumes "offending R \<or> offending f_I \<or> offending d_I \<or> offending lambda_env"
  shows "\<exists>n x. (n, x) \<in> {(''R'', R), (''f_I'', f_I), (''d_I'', d_I), (''lambda_env'', lambda_env)} \<and>
           offending x \<and> calculate_ci R f_I d_I lambda_env = Inl (input_error n x)"
proof -
  let ?args = "[(''R'', R), (''f_I'', f_I), (''d_I'', d_I), (''lambda_env'', lambda_env)]"
  from assms have "\<exists>(n, x) \<in> set ?args. offending x" by auto
  from validate_some[OF this] obtain n x where
    "(n, x) \<in> set ?args" "offending x" "validate ?args = Some (input_error n x)" by blast
  then show ?thesis by (auto simp: calculate_ci_def)
qed







text \<open>
  C3. \<open>calculate_ci\<close> fails with a \<open>ValueError\<close> whenever one of the four arguments
  is not a number (not an \<open>int\<close> or \<open>float\<close>) or is negative, and the message
  starts with the name of an offending parameter: \<open>"<name> must be a number."\<close> when
  that argument is not a number, \<open>"<name> must be non-negative."\<close> when it is
  negative. For \<open>R = -1\<close> the message is \<open>"R must be non-negative."\<close>.
\<close>

theorem invalid_input_error:
  assumes "offending R \<or> offending f_I \<or> offending d_I \<or> offending lambda_env"
  shows "\<exists>n x. (n, x) \<in> {(''R'', R), (''f_I'', f_I), (''d_I'', d_I), (''lambda_env'', lambda_env)} \<and>
           offending x \<and>
           calculate_ci R f_I d_I lambda_env =
             Inl (ValueError (n @ (if num_of x = None then '' must be a number.''
                                   else '' must be non-negative.'')))"
proof -
  from calculate_ci_invalid_error[OF assms] obtain n x where
    m: "(n, x) \<in> {(''R'', R), (''f_I'', f_I), (''d_I'', d_I), (''lambda_env'', lambda_env)}"
    and o: "offending x"
    and c: "calculate_ci R f_I d_I lambda_env = Inl (input_error n x)"
    by blast
  have "input_error n x = ValueError (n @ (if num_of x = None then '' must be a number.''
                                   else '' must be non-negative.''))"
    by (simp add: input_error_def)
  with m o c show ?thesis by metis
qed

theorem invalid_input_error_witness:
  "offending (PyInt (- 1)) \<and>
   calculate_ci (PyInt (- 1)) (PyInt 1) (PyInt 1) (PyInt 1) = Inl (ValueError ''R must be non-negative.'')"
proof -
  have h: "offending (PyInt (- 1))" by (simp add: offending_def)
  have n1: "\<not> offending (PyInt 1)" by (simp add: offending_def)
  from h have "offending (PyInt (- 1)) \<or> offending (PyInt 1) \<or> offending (PyInt 1) \<or> offending (PyInt 1)"
    by simp
  from invalid_input_error[OF this] obtain n x where
    m: "(n, x) \<in> {(''R'', PyInt (- 1)), (''f_I'', PyInt 1), (''d_I'', PyInt 1), (''lambda_env'', PyInt 1)}"
    and o: "offending x"
    and c: "calculate_ci (PyInt (- 1)) (PyInt 1) (PyInt 1) (PyInt 1) =
             Inl (ValueError (n @ (if num_of x = None then '' must be a number.''
                                   else '' must be non-negative.'')))"
    by blast
  from m o n1 have "n = ''R'' \<and> x = PyInt (- 1)" by auto
  with c h show ?thesis by simp
qed

text \<open>
  C9. Validation precedes the zero-denominator test, and the arguments are validated
  in the order \<open>R\<close>, \<open>f_I\<close>, \<open>d_I\<close>, \<open>lambda_env\<close>, the type test before the sign
  test: the error raised is the input error of the first offending argument in that
  order, and it is never the zero-denominator error when some argument is offending.
\<close>

theorem validation_order:
  "(offending R \<longrightarrow> calculate_ci R f_I d_I lambda_env = Inl (input_error ''R'' R)) \<and>
   (\<not> offending R \<and> offending f_I \<longrightarrow>
      calculate_ci R f_I d_I lambda_env = Inl (input_error ''f_I'' f_I)) \<and>
   (\<not> offending R \<and> \<not> offending f_I \<and> offending d_I \<longrightarrow>
      calculate_ci R f_I d_I lambda_env = Inl (input_error ''d_I'' d_I)) \<and>
   (\<not> offending R \<and> \<not> offending f_I \<and> \<not> offending d_I \<and> offending lambda_env \<longrightarrow>
      calculate_ci R f_I d_I lambda_env = Inl (input_error ''lambda_env'' lambda_env)) \<and>
   (offending R \<or> offending f_I \<or> offending d_I \<or> offending lambda_env \<longrightarrow>
      calculate_ci R f_I d_I lambda_env \<noteq> Inl (ValueError denominator_msg))"
proof -
  have 5: "calculate_ci R f_I d_I lambda_env \<noteq> Inl (ValueError denominator_msg)"
    if "offending R \<or> offending f_I \<or> offending d_I \<or> offending lambda_env"
  proof -
    from calculate_ci_invalid_error[OF that] obtain n x where
      n: "n \<in> {''R'', ''f_I'', ''d_I'', ''lambda_env''}"
      and c: "calculate_ci R f_I d_I lambda_env = Inl (input_error n x)" by auto
    from input_error_not_denominator[OF n] c show ?thesis by simp
  qed
  have 1: "calculate_ci R f_I d_I lambda_env = Inl (input_error ''R'' R)" if "offending R"
    using that by (simp add: calculate_ci_def validate_Cons del: validate.simps(2))
  have 2: "calculate_ci R f_I d_I lambda_env = Inl (input_error ''f_I'' f_I)"
    if "\<not> offending R \<and> offending f_I"
    using that by (simp add: calculate_ci_def validate_Cons del: validate.simps(2))
  have 3: "calculate_ci R f_I d_I lambda_env = Inl (input_error ''d_I'' d_I)"
    if "\<not> offending R \<and> \<not> offending f_I \<and> offending d_I"
    using that by (simp add: calculate_ci_def validate_Cons del: validate.simps(2))
  have 4: "calculate_ci R f_I d_I lambda_env = Inl (input_error ''lambda_env'' lambda_env)"
    if "\<not> offending R \<and> \<not> offending f_I \<and> \<not> offending d_I \<and> offending lambda_env"
    using that by (simp add: calculate_ci_def validate_Cons del: validate.simps(2))
  show ?thesis
    by (intro conjI impI) (erule 1 2 3 4 5)+
qed

theorem validation_order_witness:
  "calculate_ci (PyInt (- 1)) (PyInt 1) (PyInt 0) (PyInt 5) = Inl (ValueError ''R must be non-negative.'') \<and>
   calculate_ci (PyInt 1) PyOther (PyInt (- 2)) (PyInt 0) = Inl (ValueError ''f_I must be a number.'') \<and>
   calculate_ci (PyInt 1) (PyInt 1) (PyFloat NegInf) PyOther = Inl (ValueError ''d_I must be non-negative.'') \<and>
   calculate_ci (PyInt 1) (PyInt 1) (PyInt 0) PyOther = Inl (ValueError ''lambda_env must be a number.'') \<and>
   calculate_ci (PyInt (- 1)) (PyInt 1) (PyInt 0) (PyInt 5) \<noteq> Inl (ValueError denominator_msg)"
proof -
  have o1: "offending (PyInt (- 1))" and o2: "offending PyOther" and o3: "offending (PyFloat NegInf)"
    and n1: "\<not> offending (PyInt 1)" and n0: "\<not> offending (PyInt 0)"
    by (simp_all add: offending_def)
  have a: "calculate_ci (PyInt (- 1)) (PyInt 1) (PyInt 0) (PyInt 5) = Inl (input_error ''R'' (PyInt (- 1)))"
    and a': "calculate_ci (PyInt (- 1)) (PyInt 1) (PyInt 0) (PyInt 5) \<noteq> Inl (ValueError denominator_msg)"
    using validation_order [of "PyInt (- 1)" "PyInt 1" "PyInt 0" "PyInt 5"] o1 by blast+
  have b: "calculate_ci (PyInt 1) PyOther (PyInt (- 2)) (PyInt 0) = Inl (input_error ''f_I'' PyOther)"
    using validation_order [of "PyInt 1" PyOther "PyInt (- 2)" "PyInt 0"] o2 n1 by blast
  have c: "calculate_ci (PyInt 1) (PyInt 1) (PyFloat NegInf) PyOther
             = Inl (input_error ''d_I'' (PyFloat NegInf))"
    using validation_order [of "PyInt 1" "PyInt 1" "PyFloat NegInf" PyOther] o3 n1 by blast
  have d: "calculate_ci (PyInt 1) (PyInt 1) (PyInt 0) PyOther = Inl (input_error ''lambda_env'' PyOther)"
    using validation_order [of "PyInt 1" "PyInt 1" "PyInt 0" PyOther] o2 n1 n0 by blast
  show ?thesis
    unfolding a b c d using a a' by (simp add: input_error_def)
qed

subsection \<open>classify_regime\<close>

lemma pf_ge_Finite [simp]: "pf_ge (Finite a) (Finite b) = (b \<le> a)"
  by (auto simp: pf_ge_def pf_eq_def)

lemma pf_ge_special [simp]:
  "pf_ge NaN v = False" "pf_ge PosInf (Finite b) = True" "pf_ge NegInf (Finite b) = False"
  by (cases v) (simp_all add: pf_ge_def pf_eq_def)

lemma classify_regime_Finite:
  "classify_regime (Finite r) =
     (if 4 \<le> r then ''super_persistent'' else if 2 \<le> r then ''strong''
      else if 1 \<le> r then ''fragile'' else ''collapse_gravity'')"
  by (simp add: classify_regime_def)

lemma classify_regime_special:
  "classify_regime NaN = ''collapse_gravity''"
  "classify_regime NegInf = ''collapse_gravity''"
  "classify_regime PosInf = ''super_persistent''"
  by (simp_all add: classify_regime_def)

lemma classify_regime_labels:
  "classify_regime x \<in> {''super_persistent'', ''strong'', ''fragile'', ''collapse_gravity''}"
  by (simp add: classify_regime_def)

text \<open>
  C4. \<open>classify_regime\<close> is total on the extended reals, with right-open bands tested
  in descending order: it returns \<open>"super_persistent"\<close> iff \<open>log_ci >= 4\<close>, \<open>"strong"\<close>
  iff \<open>2 <= log_ci < 4\<close>, \<open>"fragile"\<close> iff \<open>1 <= log_ci < 2\<close>, and, for an argument
  that is not NaN, \<open>"collapse_gravity"\<close> iff \<open>log_ci < 1\<close> (negative infinity
  included). The result is always one of the four labels. At the boundaries:
  \<open>4.0\<close> is super_persistent, \<open>3.999999\<close> strong, \<open>1.0\<close> fragile, \<open>0.999999\<close>
  collapse_gravity.
\<close>

theorem classify_regime_bands:
  "(classify_regime x = ''super_persistent'' \<longleftrightarrow> pf_ge x (Finite 4)) \<and>
   (classify_regime x = ''strong'' \<longleftrightarrow> pf_ge x (Finite 2) \<and> pf_lt x (Finite 4)) \<and>
   (classify_regime x = ''fragile'' \<longleftrightarrow> pf_ge x (Finite 1) \<and> pf_lt x (Finite 2)) \<and>
   (x \<noteq> NaN \<longrightarrow> (classify_regime x = ''collapse_gravity'' \<longleftrightarrow> pf_lt x (Finite 1))) \<and>
   classify_regime x \<in> {''super_persistent'', ''strong'', ''fragile'', ''collapse_gravity''} \<and>
   classify_regime NegInf = ''collapse_gravity'' \<and>
   classify_regime (Finite 4) = ''super_persistent'' \<and>
   classify_regime (Finite 3.999999) = ''strong'' \<and>
   classify_regime (Finite 1) = ''fragile'' \<and>
   classify_regime (Finite 0.999999) = ''collapse_gravity''"
proof -
  have bands: "(classify_regime x = ''super_persistent'' \<longleftrightarrow> pf_ge x (Finite 4)) \<and>
   (classify_regime x = ''strong'' \<longleftrightarrow> pf_ge x (Finite 2) \<and> pf_lt x (Finite 4)) \<and>
   (classify_regime x = ''fragile'' \<longleftrightarrow> pf_ge x (Finite 1) \<and> pf_lt x (Finite 2)) \<and>
   (x \<noteq> NaN \<longrightarrow> (classify_regime x = ''collapse_gravity'' \<longleftrightarrow> pf_lt x (Finite 1)))"
  proof (cases x)
    case (Finite r)
    then show ?thesis by (simp add: classify_regime_Finite)
  qed (simp_all add: classify_regime_special)
  have pts: "classify_regime (Finite 4) = ''super_persistent''"
    "classify_regime (Finite 3.999999) = ''strong''"
    "classify_regime (Finite 1) = ''fragile''"
    "classify_regime (Finite 0.999999) = ''collapse_gravity''"
    by (simp_all add: classify_regime_Finite)
  from bands pts classify_regime_labels[of x] classify_regime_special(2) show ?thesis
    by blast
qed

theorem classify_regime_bands_witness:
  "Finite 0.5 \<noteq> NaN \<and> pf_lt (Finite 0.5) (Finite 1) \<and>
   classify_regime (Finite 0.5) = ''collapse_gravity'' \<and>
   pf_ge (Finite 2.5) (Finite 2) \<and> pf_lt (Finite 2.5) (Finite 4) \<and>
   classify_regime (Finite 2.5) = ''strong''"
  using classify_regime_bands [of "Finite 0.5"] classify_regime_bands [of "Finite 2.5"]
  by simp

text \<open>
  C10. For NaN each of the comparisons \<open>log_ci >= 4\<close>, \<open>log_ci >= 2\<close>, \<open>log_ci >= 1\<close>
  is false, so \<open>classify_regime\<close> takes the last branch and returns
  \<open>"collapse_gravity"\<close>, and \<open>explain_regime\<close> returns the collapse-gravity sentence.
\<close>

theorem classify_regime_NaN:
  "\<not> pf_ge NaN (Finite 4) \<and> \<not> pf_ge NaN (Finite 2) \<and> \<not> pf_ge NaN (Finite 1) \<and>
   classify_regime NaN = ''collapse_gravity'' \<and>
   explain_regime NaN = text_collapse_gravity"
  by (simp add: classify_regime_special explain_regime_def)

subsection \<open>interpret_ci_minimal\<close>

lemma pf_gt_Finite [simp]: "pf_gt (Finite a) (Finite b) = (b < a)"
  by (simp add: pf_gt_def)

lemma pf_eq_Finite [simp]: "pf_eq (Finite a) (Finite b) = (a = b)"
  by (simp add: pf_eq_def)

lemma interpret_ci_minimal_Finite:
  "interpret_ci_minimal (Finite c) =
     (if 1 < c then msg_effective else if c = 1 then msg_equilibrium else msg_collapse)"
  by (simp add: interpret_ci_minimal_def)

lemma interpret_ci_minimal_special:
  "interpret_ci_minimal NaN = msg_invalid"
  "interpret_ci_minimal PosInf = msg_effective"
  "interpret_ci_minimal NegInf = msg_collapse"
  by (simp_all add: interpret_ci_minimal_def pf_gt_def pf_eq_def)

lemma msgs_distinct:
  "msg_effective \<noteq> msg_equilibrium" "msg_effective \<noteq> msg_collapse"
  "msg_equilibrium \<noteq> msg_collapse"
  "msg_invalid \<noteq> msg_effective" "msg_invalid \<noteq> msg_equilibrium" "msg_invalid \<noteq> msg_collapse"
  by (simp_all add: msg_effective_def msg_equilibrium_def msg_collapse_def msg_invalid_def)

lemma interpret_ci_minimal_invalid_iff: "interpret_ci_minimal v = msg_invalid \<longleftrightarrow> v = NaN"
proof (cases v)
  case (Finite c)
  then show ?thesis using msgs_distinct by (simp add: interpret_ci_minimal_Finite)
qed (use msgs_distinct in \<open>simp_all add: interpret_ci_minimal_special\<close>)

text \<open>
  C6. \<open>interpret_ci_minimal\<close> compares with 1 three ways: for \<open>ci > 1\<close> it returns the
  continuity-effective message, for \<open>ci == 1\<close> the fragile-equilibrium message, for
  \<open>ci < 1\<close> the collapse-risk message; the three messages are pairwise distinct.
\<close>

theorem interpret_ci_minimal_branches:
  "(pf_gt ci (Finite 1) \<longrightarrow> interpret_ci_minimal ci = msg_effective) \<and>
   (pf_eq ci (Finite 1) \<longrightarrow> interpret_ci_minimal ci = msg_equilibrium) \<and>
   (pf_lt ci (Finite 1) \<longrightarrow> interpret_ci_minimal ci = msg_collapse) \<and>
   msg_effective \<noteq> msg_equilibrium \<and> msg_effective \<noteq> msg_collapse \<and>
   msg_equilibrium \<noteq> msg_collapse"
proof -
  have "(pf_gt ci (Finite 1) \<longrightarrow> interpret_ci_minimal ci = msg_effective) \<and>
   (pf_eq ci (Finite 1) \<longrightarrow> interpret_ci_minimal ci = msg_equilibrium) \<and>
   (pf_lt ci (Finite 1) \<longrightarrow> interpret_ci_minimal ci = msg_collapse)"
  proof (cases ci)
    case (Finite c)
    then show ?thesis by (simp add: interpret_ci_minimal_Finite)
  qed (simp_all add: interpret_ci_minimal_special pf_gt_def pf_eq_def)
  with msgs_distinct(1-3) show ?thesis by blast
qed

theorem interpret_ci_minimal_branches_witness:
  "pf_gt (Finite 2) (Finite 1) \<and> interpret_ci_minimal (Finite 2) = msg_effective \<and>
   pf_eq (Finite 1) (Finite 1) \<and> interpret_ci_minimal (Finite 1) = msg_equilibrium \<and>
   pf_lt (Finite 0.5) (Finite 1) \<and> interpret_ci_minimal (Finite 0.5) = msg_collapse"
  using interpret_ci_minimal_branches [of "Finite 2"] interpret_ci_minimal_branches [of "Finite 1"]
    interpret_ci_minimal_branches [of "Finite 0.5"]
  by simp

subsection \<open>explain_regime\<close>

lemma explain_regime_label:
  "classify_regime x = ''super_persistent'' \<Longrightarrow> explain_regime x = text_super_persistent"
  "classify_regime x = ''strong'' \<Longrightarrow> explain_regime x = text_strong"
  "classify_regime x = ''fragile'' \<Longrightarrow> explain_regime x = text_fragile"
  "classify_regime x = ''collapse_gravity'' \<Longrightarrow> explain_regime x = text_collapse_gravity"
  by (simp_all add: explain_regime_def)

text \<open>
  C7. The text of \<open>explain_regime\<close> is determined by the label of \<open>classify_regime\<close>:
  two arguments with the same label get the same text, each of the four labels has
  one fixed sentence, and the result is always one of these four sentences.
\<close>

theorem explain_regime_by_label:
  "(classify_regime x = classify_regime y \<longrightarrow> explain_regime x = explain_regime y) \<and>
   (classify_regime x = ''super_persistent'' \<longrightarrow> explain_regime x = text_super_persistent) \<and>
   (classify_regime x = ''strong'' \<longrightarrow> explain_regime x = text_strong) \<and>
   (classify_regime x = ''fragile'' \<longrightarrow> explain_regime x = text_fragile) \<and>
   (classify_regime x = ''collapse_gravity'' \<longrightarrow> explain_regime x = text_collapse_gravity) \<and>
   explain_regime x \<in> {text_super_persistent, text_strong, text_fragile, text_collapse_gravity}"
proof -
  have 1: "explain_regime x = explain_regime y" if "classify_regime x = classify_regime y"
    using that by (simp add: explain_regime_def)
  have 2: "explain_regime x \<in> {text_super_persistent, text_strong, text_fragile, text_collapse_gravity}"
    by (simp add: explain_regime_def Let_def)
  from 1 2 explain_regime_label[of x] show ?thesis by blast
qed

theorem explain_regime_by_label_witness:
  "classify_regime (Finite 5) = classify_regime PosInf \<and>
   explain_regime (Finite 5) = explain_regime PosInf \<and>
   explain_regime (Finite 5) = text_super_persistent \<and>
   explain_regime (Finite 3) = text_strong \<and>
   explain_regime (Finite 1.5) = text_fragile \<and>
   explain_regime NegInf = text_collapse_gravity"
proof -
  have c: "classify_regime (Finite 5) = ''super_persistent''" "classify_regime PosInf = ''super_persistent''"
    "classify_regime (Finite 3) = ''strong''" "classify_regime (Finite 1.5) = ''fragile''"
    "classify_regime NegInf = ''collapse_gravity''"
    by (simp_all add: classify_regime_Finite classify_regime_special)
  have e: "classify_regime (Finite 5) = classify_regime PosInf"
    by (simp only: c)
  have 1: "explain_regime (Finite 5) = explain_regime PosInf"
    using explain_regime_by_label [of "Finite 5" PosInf] e by blast
  have 2: "explain_regime (Finite 5) = text_super_persistent"
    using explain_regime_by_label [of "Finite 5" PosInf] c(1) by blast
  have 3: "explain_regime (Finite 3) = text_strong"
    using explain_regime_by_label [of "Finite 3" NaN] c(3) by blast
  have 4: "explain_regime (Finite 1.5) = text_fragile"
    using explain_regime_by_label [of "Finite 1.5" NaN] c(4) by blast
  have 5: "explain_regime NegInf = text_collapse_gravity"
    using explain_regime_by_label [of NegInf NaN] c(5) by blast
  from e 1 2 3 4 5 show ?thesis by blast
qed

subsection \<open>The pair returned by calculate_ci\<close>

lemma calculate_ci_Inr:
  assumes "calculate_ci R f_I d_I lambda_env = Inr p"
  shows "\<not> offending R" "\<not> offending f_I" "\<not> offending d_I" "\<not> offending lambda_env"
    "compute_ci R f_I d_I lambda_env = Inr p"
proof -
  have no: "\<not> (offending R \<or> offending f_I \<or> offending d_I \<or> offending lambda_env)"
  proof
    assume "offending R \<or> offending f_I \<or> offending d_I \<or> offending lambda_env"
    from calculate_ci_invalid[OF this] assms show False by auto
  qed
  then show v: "\<not> offending R" "\<not> offending f_I" "\<not> offending d_I" "\<not> offending lambda_env"
    by simp_all
  from calculate_ci_valid[OF v] assms show "compute_ci R f_I d_I lambda_env = Inr p" by simp
qed

lemma pf_gt_eq_excl: "pf_eq c (Finite 0) \<Longrightarrow> \<not> pf_gt c (Finite 0)"
  by (cases c) (simp_all add: pf_eq_def pf_gt_def)

lemma pf_div_zero_num:
  assumes "pf_div (Finite 0) y = Inr c" "y \<noteq> NaN"
  shows "c = Finite 0"
  using assms by (cases y) (auto split: if_splits)

lemma py_truediv_zero_num:
  assumes "py_truediv num den = Inr ci" "py_eq_zero num" "den \<noteq> PyFloat NaN"
  shows "ci = Finite 0"
  using assms(2)
proof (cases rule: py_eq_zero_cases)
  case int
  show ?thesis
  proof (cases den)
    case (PyInt n)
    with int assms(1) show ?thesis by (auto split: if_splits)
  next
    case (PyFloat y)
    with int assms(1) have "pf_div (Finite 0) y = Inr ci" by simp
    from pf_div_zero_num[OF this] PyFloat assms(3) show ?thesis by simp
  next
    case PyOther
    with int assms(1) show ?thesis by simp
  qed
next
  case fin
  show ?thesis
  proof (cases den)
    case (PyInt n)
    with fin assms(1) obtain y where y: "to_float n = Inr y" "pf_div (Finite 0) y = Inr ci"
      by (auto split: sum.splits)
    from to_float_Inr[OF y(1)] have "y \<noteq> NaN" by auto
    from pf_div_zero_num[OF y(2) this] show ?thesis .
  next
    case (PyFloat y)
    with fin assms(1) have "pf_div (Finite 0) y = Inr ci" by simp
    from pf_div_zero_num[OF this] PyFloat assms(3) show ?thesis by simp
  next
    case PyOther
    with fin assms(1) show ?thesis by simp
  qed
qed

text \<open>
  C5, as stated: for every successful call, \<open>log_CI = log10(CI)\<close> when \<open>CI > 0\<close>,
  \<open>log_CI\<close> is negative infinity when \<open>CI = 0\<close>, \<open>CI\<close> is never negative, and when
  \<open>R = 0\<close> or \<open>f_I = 0\<close> with a nonzero denominator, \<open>CI = 0\<close>. The last part does
  not hold for an infinite factor: \<open>calculate_ci(0, inf, 1, 1)\<close> passes validation,
  the denominator is 1, and \<open>0 * inf\<close> is NaN, so the pair returned is \<open>(nan, -inf)\<close>.
\<close>

theorem ci_zero_counterexample:
  "calculate_ci (PyInt 0) (PyFloat PosInf) (PyInt 1) (PyInt 1) = Inr (NaN, NegInf) \<and>
   py_eq_zero (PyInt 0) \<and>
   py_mul (PyInt 1) (PyInt 1) = Inr (PyInt 1) \<and> \<not> py_eq_zero (PyInt 1) \<and>
   NaN \<noteq> Finite 0 \<and> \<not> pf_eq NaN (Finite 0)"
  by (simp add: calculate_ci_def compute_ci_def pf_gt_def pf_eq_def)

text \<open>
  C5, amended. For every successful call of \<open>calculate_ci\<close>: \<open>log_CI = log10(CI)\<close>
  whenever \<open>CI > 0\<close>, \<open>log_CI\<close> is negative infinity when \<open>CI = 0\<close>, and \<open>CI\<close> is
  never negative. In particular, when \<open>R = 0\<close> or \<open>f_I = 0\<close>, both \<open>R\<close> and \<open>f_I\<close>
  are finite, and the denominator \<open>lambda_env * d_I\<close> is not NaN (it is nonzero, as
  the call succeeded), \<open>CI = 0\<close>, \<open>log_CI\<close> is negative infinity, and
  \<open>classify_regime\<close> of negative infinity is \<open>"collapse_gravity"\<close>.
\<close>

theorem ci_log_ci_consistent:
  assumes "calculate_ci R f_I d_I lambda_env = Inr (ci, log_ci)"
  shows "(pf_gt ci (Finite 0) \<longrightarrow> log10 ci = Inr log_ci) \<and>
         (pf_eq ci (Finite 0) \<longrightarrow> log_ci = NegInf) \<and>
         \<not> pf_lt ci (Finite 0) \<and>
         ((py_eq_zero R \<or> py_eq_zero f_I) \<and> is_finite R \<and> is_finite f_I \<and>
             py_mul lambda_env d_I \<noteq> Inr (PyFloat NaN) \<longrightarrow>
             ci = Finite 0 \<and> log_ci = NegInf \<and> classify_regime log_ci = ''collapse_gravity'') \<and>
         classify_regime NegInf = ''collapse_gravity''"
proof -
  note v = calculate_ci_Inr(1-4)[OF assms]
  note c = calculate_ci_Inr(5)[OF assms]
  from v obtain den num where
    den: "py_mul lambda_env d_I = Inr den"
    and num: "py_mul R f_I = Inr num"
    and dv: "py_truediv num den = Inr ci"
    and nn: "\<not> pf_lt ci (Finite 0)"
    and lg: "if pf_gt ci (Finite 0) then log10 ci = Inr log_ci else log_ci = NegInf"
  proof (cases rule: compute_ci_cases)
    case (pair den num ci' log_ci')
    with c have "ci' = ci" "log_ci' = log_ci" by simp_all
    with pair that show ?thesis by blast
  qed (use c in simp_all)
  have 1: "pf_gt ci (Finite 0) \<longrightarrow> log10 ci = Inr log_ci"
    using lg by (simp split: if_splits)
  have 2: "pf_eq ci (Finite 0) \<longrightarrow> log_ci = NegInf"
    using lg pf_gt_eq_excl[of ci] by (auto split: if_splits)
  have 5: "classify_regime NegInf = ''collapse_gravity''"
    by (rule classify_regime_special)
  have 4: "ci = Finite 0 \<and> log_ci = NegInf \<and> classify_regime log_ci = ''collapse_gravity''"
    if h: "(py_eq_zero R \<or> py_eq_zero f_I) \<and> is_finite R \<and> is_finite f_I \<and>
             py_mul lambda_env d_I \<noteq> Inr (PyFloat NaN)"
  proof -
    from h num py_mul_zero_left[of R f_I num] py_mul_zero_right[of R f_I num]
    have z: "py_eq_zero num" by blast
    from h den have "den \<noteq> PyFloat NaN" by auto
    from py_truediv_zero_num[OF dv z this] have ci0: "ci = Finite 0" .
    with lg have "log_ci = NegInf" by (simp add: pf_gt_def)
    with ci0 5 show ?thesis by simp
  qed
  from 1 2 nn 4 5 show ?thesis by blast
qed

theorem ci_log_ci_consistent_witness:
  "calculate_ci (PyInt 0) (PyInt 1) (PyFloat PosInf) (PyInt 1) = Inr (Finite 0, NegInf) \<and>
   py_eq_zero (PyInt 0) \<and> is_finite (PyInt 0) \<and> is_finite (PyInt 1) \<and>
   py_mul (PyInt 1) (PyFloat PosInf) \<noteq> Inr (PyFloat NaN) \<and>
   pf_eq (Finite 0) (Finite 0) \<and> \<not> pf_lt (Finite 0) (Finite 0) \<and>
   classify_regime NegInf = ''collapse_gravity'' \<and>
   calculate_ci (PyInt 2) (PyInt 1) (PyInt 1) (PyInt 1) = Inr (Finite 2, round_to_double (log 10 2)) \<and>
   pf_gt (Finite 2) (Finite 0) \<and> log10 (Finite 2) = Inr (round_to_double (log 10 2))"
proof -
  have a: "calculate_ci (PyInt 0) (PyInt 1) (PyFloat PosInf) (PyInt 1) = Inr (Finite 0, NegInf)"
    by (simp add: calculate_ci_def compute_ci_def pf_eq_def pf_gt_def)
  have b: "calculate_ci (PyInt 2) (PyInt 1) (PyInt 1) (PyInt 1) =
      Inr (Finite 2, round_to_double (log 10 2))"
    by (simp add: calculate_ci_def compute_ci_def pf_gt_def)
  have m: "py_mul (PyInt 1) (PyFloat PosInf) \<noteq> Inr (PyFloat NaN)" by simp
  from ci_log_ci_consistent[OF a] ci_log_ci_consistent[OF b] a b m show ?thesis
    by (simp add: pf_gt_def)
qed

text \<open>
  Whether the quotient is NaN, on validated operands: exactly when an operand is NaN
  or both are infinite.
\<close>

lemma pf_div_NaN_iff:
  assumes "pf_div x y = Inr c" "x \<noteq> NegInf" "y \<noteq> NegInf"
  shows "c = NaN \<longleftrightarrow> x = NaN \<or> y = NaN \<or> (x = PosInf \<and> y = PosInf)"
  using assms by (cases x; cases y) (auto split: if_splits)

lemma py_truediv_NaN_iff:
  assumes "py_truediv num den = Inr ci" "\<not> offending num" "\<not> offending den"
  shows "ci = NaN \<longleftrightarrow>
           num = PyFloat NaN \<or> den = PyFloat NaN \<or> (num = PyFloat PosInf \<and> den = PyFloat PosInf)"
proof (cases num)
  case n: (PyInt a)
  show ?thesis
  proof (cases den)
    case (PyInt b)
    with n assms(1) show ?thesis by (auto split: if_splits pyfloat.splits)
  next
    case d: (PyFloat y)
    from n d assms(1) obtain x where x: "to_float a = Inr x" "pf_div x y = Inr ci"
      by (auto split: sum.splits)
    from to_float_Inr[OF x(1)] obtain x' where x': "x = Finite x'" by blast
    from assms(3) d have "y \<noteq> NegInf" by auto
    from pf_div_NaN_iff[OF x(2) _ this] x' n d show ?thesis by simp
  next
    case PyOther
    with assms(3) show ?thesis by simp
  qed
next
  case n: (PyFloat x)
  from assms(2) n have xn: "x \<noteq> NegInf" by auto
  show ?thesis
  proof (cases den)
    case d: (PyInt b)
    from n d assms(1) obtain y where y: "to_float b = Inr y" "pf_div x y = Inr ci"
      by (auto split: sum.splits)
    from to_float_Inr[OF y(1)] obtain y' where y': "y = Finite y'" by blast
    from pf_div_NaN_iff[OF y(2) xn] y' n d show ?thesis by simp
  next
    case d: (PyFloat y)
    from assms(3) d have yn: "y \<noteq> NegInf" by auto
    from n d assms(1) have "pf_div x y = Inr ci" by simp
    from pf_div_NaN_iff[OF this xn yn] n d show ?thesis by simp
  next
    case PyOther
    with assms(3) show ?thesis by simp
  qed
next
  case PyOther
  with assms(2) show ?thesis by simp
qed

lemma interpret_ci_minimal_branch:
  "v \<noteq> NaN \<Longrightarrow> interpret_ci_minimal v \<in> {msg_effective, msg_equilibrium, msg_collapse}"
  by (cases v) (simp_all add: interpret_ci_minimal_Finite interpret_ci_minimal_special)

text \<open>
  C8, as stated: on every \<open>CI\<close> that a successful call of \<open>calculate_ci\<close> returns,
  \<open>interpret_ci_minimal\<close> takes one of its three comparison branches, never the
  fallback. This does not hold, even for finite arguments:
  \<open>calculate_ci(2.0**1023, 2.0, 2.0**1023, 2.0)\<close> passes validation, both products
  overflow to \<open>inf\<close>, and \<open>inf / inf\<close> is NaN, so the call returns \<open>(nan, -inf)\<close>,
  and \<open>interpret_ci_minimal(nan)\<close> is \<open>"Invalid CI value."\<close>.
\<close>

theorem interpret_fallback_counterexample:
  "calculate_ci (PyFloat (Finite (2 powi 1023))) (PyFloat (Finite 2))
     (PyFloat (Finite (2 powi 1023))) (PyFloat (Finite 2)) = Inr (NaN, NegInf) \<and>
   interpret_ci_minimal NaN = ''Invalid CI value.''"
proof -
  have e: "(2::real) powi 1023 * 2 = 2 powi 1024"
    using power_int_add[of "2::real" 1023 1] by (simp del: power_int_numeral)
  have "(2::real) powi 1024 \<le> \<bar>2 powi 1023 * 2\<bar>"
    unfolding e by (simp del: power_int_numeral)
  from round_to_double_overflow[OF this] have o: "round_to_double (2 powi 1023 * 2) = PosInf"
    unfolding e by (simp del: power_int_numeral)
  have "round_to_double (2 * 2 powi 1023) = PosInf"
    using o by (simp only: mult.commute)
  with o have m: "pf_mul (Finite (2 powi 1023)) (Finite 2) = PosInf"
    "pf_mul (Finite 2) (Finite (2 powi 1023)) = PosInf"
    by (simp_all only: pf_mul.simps)
  have p: "\<not> (2::real) powi 1023 < 0"
    by (simp only: not_less zero_le_power_int zero_le_numeral)
  have "calculate_ci (PyFloat (Finite (2 powi 1023))) (PyFloat (Finite 2))
     (PyFloat (Finite (2 powi 1023))) (PyFloat (Finite 2)) = Inr (NaN, NegInf)"
    using m p
    by (simp add: calculate_ci_def compute_ci_def pf_eq_def pf_gt_def
        del: power_int_numeral pf_mul.simps)
  moreover have "interpret_ci_minimal NaN = ''Invalid CI value.''"
    by (simp add: interpret_ci_minimal_special msg_invalid_def)
  ultimately show ?thesis by (simp only: simp_thms)
qed

text \<open>
  C8, amended. On the \<open>CI\<close> that a successful call of \<open>calculate_ci\<close> returns,
  \<open>interpret_ci_minimal\<close> returns the fallback \<open>"Invalid CI value."\<close> exactly when
  the computed numerator \<open>R * f_I\<close> or the computed denominator \<open>lambda_env * d_I\<close>
  is NaN, or both are infinite (an argument is NaN, 0 is multiplied by \<open>inf\<close>, or
  both products are infinite, by overflow or from an infinite argument); in every
  other case it takes one of the three comparison branches.
\<close>

theorem interpret_fallback_unreachable:
  assumes "calculate_ci R f_I d_I lambda_env = Inr (ci, log_ci)"
  shows "\<exists>num den. py_mul R f_I = Inr num \<and> py_mul lambda_env d_I = Inr den \<and>
           (interpret_ci_minimal ci = msg_invalid \<longleftrightarrow>
              num = PyFloat NaN \<or> den = PyFloat NaN \<or>
              (num = PyFloat PosInf \<and> den = PyFloat PosInf)) \<and>
           (interpret_ci_minimal ci \<noteq> msg_invalid \<longrightarrow>
              interpret_ci_minimal ci \<in> {msg_effective, msg_equilibrium, msg_collapse})"
proof -
  note v = calculate_ci_Inr(1-4)[OF assms]
  note c = calculate_ci_Inr(5)[OF assms]
  from v obtain den num where
    den: "py_mul lambda_env d_I = Inr den" "\<not> offending den"
    and num: "py_mul R f_I = Inr num" "\<not> offending num"
    and dv: "py_truediv num den = Inr ci"
  proof (cases rule: compute_ci_cases)
    case (pair den num ci' log_ci')
    with c have "ci' = ci" by simp
    with pair that show ?thesis by blast
  qed (use c in simp_all)
  have "interpret_ci_minimal ci = msg_invalid \<longleftrightarrow> ci = NaN"
    by (rule interpret_ci_minimal_invalid_iff)
  also have "\<dots> \<longleftrightarrow> num = PyFloat NaN \<or> den = PyFloat NaN \<or>
              (num = PyFloat PosInf \<and> den = PyFloat PosInf)"
    using dv num(2) den(2) by (rule py_truediv_NaN_iff)
  finally have 1: "interpret_ci_minimal ci = msg_invalid \<longleftrightarrow>
      num = PyFloat NaN \<or> den = PyFloat NaN \<or> (num = PyFloat PosInf \<and> den = PyFloat PosInf)" .
  have 2: "interpret_ci_minimal ci \<noteq> msg_invalid \<longrightarrow>
      interpret_ci_minimal ci \<in> {msg_effective, msg_equilibrium, msg_collapse}"
    using interpret_ci_minimal_branch[of ci] interpret_ci_minimal_invalid_iff[of ci] by blast
  from num(1) den(1) 1 2 show ?thesis by blast
qed

theorem interpret_fallback_unreachable_witness:
  "calculate_ci (PyFloat (Finite 2)) (PyFloat (Finite 1)) (PyFloat (Finite 1)) (PyFloat (Finite 1))
     = Inr (Finite 2, round_to_double (log 10 2)) \<and>
   py_mul (PyFloat (Finite 2)) (PyFloat (Finite 1)) = Inr (PyFloat (Finite 2)) \<and>
   py_mul (PyFloat (Finite 1)) (PyFloat (Finite 1)) = Inr (PyFloat (Finite 1)) \<and>
   interpret_ci_minimal (Finite 2) \<noteq> msg_invalid \<and>
   interpret_ci_minimal (Finite 2) \<in> {msg_effective, msg_equilibrium, msg_collapse}"
proof -
  have a: "calculate_ci (PyFloat (Finite 2)) (PyFloat (Finite 1)) (PyFloat (Finite 1))
      (PyFloat (Finite 1)) = Inr (Finite 2, round_to_double (log 10 2))"
    by (simp add: calculate_ci_def compute_ci_def pf_eq_def pf_gt_def)
  have m: "py_mul (PyFloat (Finite 2)) (PyFloat (Finite 1)) = Inr (PyFloat (Finite 2))"
    "py_mul (PyFloat (Finite 1)) (PyFloat (Finite 1)) = Inr (PyFloat (Finite 1))"
    by simp_all
  from interpret_fallback_unreachable[OF a] m a show ?thesis
    by auto
qed

end
